theory Spec2Isabelle
  imports Complex_Main
begin

section \<open>JavaScript values and awaited calls\<close>

text \<open>
  The helpers of \<^verbatim>\<open>examples/basic-usage.js\<close> are higher-order: they take a
  function \<^verbatim>\<open>fn\<close>, call it and \<^verbatim>\<open>await\<close> what it returns. A JavaScript
  value is modelled by \<open>jsval\<close>; an object is the list of its own properties.
\<close>

datatype jsval =
    Undefined
  | Null
  | Boolean bool
  | Number int
  | String string
  | Object "(string \<times> jsval) list"

text \<open>
  What \<^verbatim>\<open>await fn(...)\<close> can do: the promise is fulfilled with a value, it is
  rejected (or \<^verbatim>\<open>fn\<close> throws synchronously) with a value, or it never settles.
\<close>

datatype completion = Return jsval | Throw jsval | Never

text \<open>
  A function value: its \<^verbatim>\<open>name\<close> property and its behaviour on an argument list
  in a world \<open>'w\<close> that the call may change.
\<close>

record 'w jsfun =
  name :: string
  call :: "jsval list \<Rightarrow> 'w \<Rightarrow> completion \<times> 'w"

text \<open>The exception raised by a property read on \<^verbatim>\<open>null\<close> or \<^verbatim>\<open>undefined\<close>.\<close>

definition TypeError :: jsval where
  "TypeError = Object [(''name'', String ''TypeError'')]"

text \<open>
  The read \<^verbatim>\<open>error.message\<close>: it throws on \<^verbatim>\<open>null\<close> and \<^verbatim>\<open>undefined\<close>, gives
  the property of an object (\<^verbatim>\<open>undefined\<close> when the object has none) and
  \<^verbatim>\<open>undefined\<close> on the other primitives.
\<close>

fun get_message :: "jsval \<Rightarrow> jsval + jsval" where
  "get_message Undefined = Inl TypeError"
| "get_message Null = Inl TypeError"
| "get_message (Object props) =
     (case map_of props ''message'' of None \<Rightarrow> Inr Undefined | Some m \<Rightarrow> Inr m)"
| "get_message v = Inr Undefined"

section \<open>withErrorHandling\<close>

text \<open>
  \<^verbatim>\<open>
  const withErrorHandling = (fn) => {
    return async (...args) => {
      try {
        return await fn(...args);
      } catch (error) {
        console.error(`Error in ${fn.name}:`, error.message);
        return null;
      }
    };
  };
  \<close>
  The console is the list of the lines written so far, each a label and the value
  printed after it. The handler reads \<^verbatim>\<open>error.message\<close> before it returns, so a
  failure of that read leaves the handler as an exception of the wrapper.
\<close>

type_synonym console = "(string \<times> jsval) list"

definition withErrorHandling ::
  "'w jsfun \<Rightarrow> jsval list \<Rightarrow> 'w \<times> console \<Rightarrow> completion \<times> ('w \<times> console)" where
  "withErrorHandling fn args = (\<lambda>(w, out).
     case call fn args w of
       (Return v, w') \<Rightarrow> (Return v, (w', out))
     | (Never, w') \<Rightarrow> (Never, (w', out))
     | (Throw error, w') \<Rightarrow>
         (case get_message error of
            Inl exn \<Rightarrow> (Throw exn, (w', out))
          | Inr m \<Rightarrow> (Return Null, (w', out @ [(''Error in '' @ name fn @ '':'', m)]))))"

text \<open>
  The function wrapped in the example:
  \<^verbatim>\<open>
  async (id) => {
    if (!id) throw new Error('ID is required');
    return { id, data: 'mock data' };
  }
  \<close>
\<close>

fun falsy :: "jsval \<Rightarrow> bool" where
  "falsy Undefined = True"
| "falsy Null = True"
| "falsy (Boolean b) = (\<not> b)"
| "falsy (Number n) = (n = 0)"
| "falsy (String s) = (s = [])"
| "falsy (Object props) = False"

definition Error :: "string \<Rightarrow> jsval" where
  "Error msg = Object [(''message'', String msg)]"

definition mockApiCall :: "unit jsfun" where
  "mockApiCall = \<lparr> name = '''',
     call = (\<lambda>args w.
       let id = (case args of [] \<Rightarrow> Undefined | a # _ \<Rightarrow> a)
       in if falsy id then (Throw (Error ''ID is required''), w)
          else (Return (Object [(''id'', id), (''data'', String ''mock data'')]), w)) \<rparr>"

section \<open>retryWithBackoff\<close>

text \<open>
  \<^verbatim>\<open>
  const retryWithBackoff = async (fn, maxRetries = 3, baseDelay = 1000) => {
    for (let attempt = 1; attempt <= maxRetries; attempt++) {
      try {
        return await fn();
      } catch (error) {
        if (attempt === maxRetries) throw error;

        const delay = baseDelay * Math.pow(2, attempt - 1);
        console.log(`Attempt ${attempt} failed, retrying in ${delay}ms...`);
        await new Promise(resolve => setTimeout(resolve, delay));
      }
    }
  };
  \<close>
  The delay is computed in JavaScript numbers, which are IEEE doubles. A number
  is given here by its exact value when it is finite, or it is one of the
  infinities or \<^verbatim>\<open>NaN\<close>. A result of \<open>2 ^ 1024\<close> or more in magnitude
  overflows to an infinity.
\<close>

datatype jsnum = Finite rat | PosInfinity | NegInfinity | NaN

definition overflow :: "rat \<Rightarrow> jsnum" where
  "overflow p =
     (if 2 ^ 1024 \<le> p then PosInfinity
      else if p \<le> - (2 ^ 1024) then NegInfinity
      else Finite p)"

text \<open>
  \<^verbatim>\<open>Math.pow(2, k)\<close> for an integer \<open>k \<ge> 0\<close>, as the loop calls it: the exact
  power below \<open>2 ^ 1024\<close>, \<^verbatim>\<open>Infinity\<close> from there on.
\<close>

definition Math_pow2 :: "nat \<Rightarrow> jsnum" where
  "Math_pow2 k = (if k < 1024 then Finite (2 ^ k) else PosInfinity)"

text \<open>
  The product \<^verbatim>\<open>a * b\<close>. \<^verbatim>\<open>NaN\<close> absorbs; a product with an infinity is an
  infinity of the product's sign, or \<^verbatim>\<open>NaN\<close> when the other factor is zero. The
  product of two finite numbers is taken exactly and then checked for overflow:
  that is the double product whenever one factor is a power of two with a
  non-negative exponent, the only use the loop makes of it, because such a
  product needs no rounding.
\<close>

fun sign_of :: "jsnum \<Rightarrow> rat" where
  "sign_of (Finite x) = sgn x"
| "sign_of PosInfinity = 1"
| "sign_of NegInfinity = - 1"
| "sign_of NaN = 0"

definition infinity_of :: "rat \<Rightarrow> jsnum" where
  "infinity_of sg = (if sg = 0 then NaN else if 0 < sg then PosInfinity else NegInfinity)"

fun multiply :: "jsnum \<Rightarrow> jsnum \<Rightarrow> jsnum" where
  "multiply NaN b = NaN"
| "multiply a NaN = NaN"
| "multiply (Finite x) (Finite y) = overflow (x * y)"
| "multiply a b = infinity_of (sign_of a * sign_of b)"

text \<open>
  The run is observed through its events: each invocation of \<^verbatim>\<open>fn\<close> with the
  attempt number, each line logged (attempt and delay) and each timer set (the
  delay passed to \<^verbatim>\<open>setTimeout\<close>, in milliseconds). The counter and
  \<^verbatim>\<open>maxRetries\<close> are integers; the parameters are passed explicitly (the
  defaults 3 and 1000 stand for omitted arguments). The counter starts at 1, so
  the exponent \<^verbatim>\<open>attempt - 1\<close> is never negative. A timer always fires, so the
  wait after it always ends. A loop that ends without a return gives
  \<^verbatim>\<open>undefined\<close>.
\<close>

datatype event = Invoke int | Log int jsnum | SetTimeout jsnum

function retry_loop ::
  "('w \<Rightarrow> completion \<times> 'w) \<Rightarrow> int \<Rightarrow> jsnum \<Rightarrow> int \<Rightarrow> 'w \<Rightarrow> completion \<times> 'w \<times> event list" where
  "retry_loop fn maxRetries baseDelay attempt w =
     (if attempt \<le> maxRetries then
        (case fn w of
           (Return v, w') \<Rightarrow> (Return v, w', [Invoke attempt])
         | (Never, w') \<Rightarrow> (Never, w', [Invoke attempt])
         | (Throw error, w') \<Rightarrow>
             if attempt = maxRetries then (Throw error, w', [Invoke attempt])
             else
               let delay = multiply baseDelay (Math_pow2 (nat (attempt - 1)));
                   (r, w'', es) = retry_loop fn maxRetries baseDelay (attempt + 1) w'
               in (r, w'', Invoke attempt # Log attempt delay # SetTimeout delay # es))
      else (Return Undefined, w, []))"
  by pat_completeness auto
termination
  by (relation "measure (\<lambda>(fn, maxRetries, baseDelay, attempt, w). nat (maxRetries + 1 - attempt))") auto

definition retryWithBackoff ::
  "('w \<Rightarrow> completion \<times> 'w) \<Rightarrow> int \<Rightarrow> jsnum \<Rightarrow> 'w \<Rightarrow> completion \<times> 'w \<times> event list" where
  "retryWithBackoff fn maxRetries baseDelay w = retry_loop fn maxRetries baseDelay 1 w"

text \<open>
  Observations on a run. \<open>world_after fn k w\<close> is the world after \<open>k\<close> successive
  invocations of \<^verbatim>\<open>fn\<close> from \<open>w\<close>; \<open>outcome fn k w\<close> is what invocation number
  \<open>k + 1\<close> does; \<open>invocations\<close> counts the calls of \<^verbatim>\<open>fn\<close> in a list of events.
\<close>

fun world_after :: "('w \<Rightarrow> completion \<times> 'w) \<Rightarrow> nat \<Rightarrow> 'w \<Rightarrow> 'w" where
  "world_after fn 0 w = w"
| "world_after fn (Suc k) w = world_after fn k (snd (fn w))"

definition outcome :: "('w \<Rightarrow> completion \<times> 'w) \<Rightarrow> nat \<Rightarrow> 'w \<Rightarrow> completion" where
  "outcome fn k w = fst (fn (world_after fn k w))"

fun is_Invoke :: "event \<Rightarrow> bool" where
  "is_Invoke (Invoke n) = True"
| "is_Invoke e = False"

definition invocations :: "event list \<Rightarrow> nat" where
  "invocations es = length (filter is_Invoke es)"

text \<open>
  The value of the exponential backoff formula for attempt \<open>n\<close> over the
  rationals, to compare the timers of a run with; and the events of one failed
  attempt followed by its wait, with the delay as the loop computes it.
\<close>

definition exponential_delay :: "rat \<Rightarrow> int \<Rightarrow> rat" where
  "exponential_delay baseDelay n = baseDelay * 2 ^ nat (n - 1)"

definition backoff_events :: "jsnum \<Rightarrow> int \<Rightarrow> event list" where
  "backoff_events baseDelay n =
     [Invoke n, Log n (multiply baseDelay (Math_pow2 (nat (n - 1)))),
      SetTimeout (multiply baseDelay (Math_pow2 (nat (n - 1))))]"

subsection \<open>Sample functions\<close>

text \<open>
  An operation that fails twice and then succeeds, counting its invocations in the
  world; one that always fails; a function that is fulfilled with \<^verbatim>\<open>null\<close>;
  and one that is rejected with \<^verbatim>\<open>undefined\<close>, as
  \<^verbatim>\<open>() => Promise.reject()\<close> is.
\<close>

definition alwaysFails :: "unit \<Rightarrow> completion \<times> unit" where
  "alwaysFails w = (Throw (Error ''Random failure''), w)"

definition flaky :: "nat \<Rightarrow> completion \<times> nat" where
  "flaky w = (if w < 2 then Throw (Error ''Random failure'') else Return (String ''Success!''), Suc w)"

definition resolvesNull :: "unit jsfun" where
  "resolvesNull = \<lparr> name = ''resolvesNull'', call = (\<lambda>args w. (Return Null, w)) \<rparr>"

definition rejectsUndefined :: "unit jsfun" where
  "rejectsUndefined = \<lparr> name = ''rejectsUndefined'', call = (\<lambda>args w. (Throw Undefined, w)) \<rparr>"

section \<open>The documented data API\<close>

text \<open>
  The repository documents a REST service for a collection of resources under
  \<^verbatim>\<open>/data\<close> and a client for it; its example script calls that client. Neither
  the service nor the client is implemented in the repository. This section
  models the two operations whose documented request and response can be held
  against the model: \<^verbatim>\<open>DELETE /data/batch\<close> and the pagination of
  \<^verbatim>\<open>GET /data\<close>. A resource is the JSON object of the documentation, a
  \<open>jsval\<close>; the collection is the list of the resources with their ids, in the
  order of their creation.
\<close>

text \<open>The error codes of the documentation's table, with their HTTP status.\<close>

datatype error_code =
    VALIDATION_ERROR | INVALID_REQUEST | UNAUTHORIZED | FORBIDDEN | NOT_FOUND | CONFLICT
  | UNPROCESSABLE_ENTITY | RATE_LIMITED | INTERNAL_ERROR | BAD_GATEWAY | SERVICE_UNAVAILABLE

type_synonym store = "(string \<times> jsval) list"

fun http_status :: "error_code \<Rightarrow> nat" where
  "http_status VALIDATION_ERROR = 400"
| "http_status INVALID_REQUEST = 400"
| "http_status UNAUTHORIZED = 401"
| "http_status FORBIDDEN = 403"
| "http_status NOT_FOUND = 404"
| "http_status CONFLICT = 409"
| "http_status UNPROCESSABLE_ENTITY = 422"
| "http_status RATE_LIMITED = 429"
| "http_status INTERNAL_ERROR = 500"
| "http_status BAD_GATEWAY = 502"
| "http_status SERVICE_UNAVAILABLE = 503"

subsection \<open>Batch delete\<close>

text \<open>
  Modelled from the spec: the handler of \<^verbatim>\<open>DELETE /data/{id}\<close> is not in the
  repository. The specification gives \<^verbatim>\<open>delete(id) \<rightarrow> boolean\<close>, has a resource
  removed by \<^verbatim>\<open>DELETE\<close> and has an absent id answered with the not-found error
  (\<^verbatim>\<open>NOT_FOUND\<close>, 404).
\<close>

definition delete_data :: "store \<Rightarrow> string \<Rightarrow> (error_code + bool) \<times> store" where
  "delete_data s i =
     (case map_of s i of
        None \<Rightarrow> (Inl NOT_FOUND, s)
      | Some r \<Rightarrow> (Inr True, filter (\<lambda>(k, r). k \<noteq> i) s))"

text \<open>
  The response of \<^verbatim>\<open>DELETE /data/batch\<close> as documented: a message and a summary
  with the two counts and, inside the summary, the list of the errors, each with
  the id of the member that failed.
\<close>

record batch_error =
  err_id :: string
  error :: string

record delete_summary =
  deleted :: nat
  failed :: nat
  errors :: "batch_error list"

record batch_delete_response =
  message :: string
  summary :: delete_summary

text \<open>
  The text reported for a failed member: \<^verbatim>\<open>"Not found"\<close> in the documented
  response, the description of the documentation's table for the other codes.
\<close>

fun error_text :: "error_code \<Rightarrow> string" where
  "error_text NOT_FOUND = ''Not found''"
| "error_text VALIDATION_ERROR = ''Request validation failed''"
| "error_text INVALID_REQUEST = ''Request format is invalid''"
| "error_text UNAUTHORIZED = ''Authentication required''"
| "error_text FORBIDDEN = ''Insufficient permissions''"
| "error_text CONFLICT = ''Resource conflict''"
| "error_text UNPROCESSABLE_ENTITY = ''Request cannot be processed''"
| "error_text RATE_LIMITED = ''Rate limit exceeded''"
| "error_text INTERNAL_ERROR = ''Internal server error''"
| "error_text BAD_GATEWAY = ''Gateway error''"
| "error_text SERVICE_UNAVAILABLE = ''Service temporarily unavailable''"

text \<open>
  Modelled from the spec: the handler of \<^verbatim>\<open>DELETE /data/batch\<close> is not in the
  repository. The specification has the batch report a partial failure per item
  and not fail as a whole: the ids are deleted one after the other, a success
  counts as deleted, a failure counts as failed and adds an entry to the errors.
\<close>

fun delete_each :: "store \<Rightarrow> string list \<Rightarrow> delete_summary \<times> store" where
  "delete_each s [] = (\<lparr> deleted = 0, failed = 0, errors = [] \<rparr>, s)"
| "delete_each s (i # ids) =
     (case delete_data s i of
        (Inr ok, s') \<Rightarrow>
          (let (r, s'') = delete_each s' ids in (r\<lparr> deleted := deleted r + 1 \<rparr>, s''))
      | (Inl e, s') \<Rightarrow>
          (let (r, s'') = delete_each s' ids
           in (r\<lparr> failed := failed r + 1,
                   errors := \<lparr> err_id = i, error = error_text e \<rparr> # errors r \<rparr>, s'')))"

definition batchDelete :: "store \<Rightarrow> string list \<Rightarrow> batch_delete_response \<times> store" where
  "batchDelete s ids =
     (let (r, s') = delete_each s ids
      in (\<lparr> message = ''Batch delete completed'', summary = r \<rparr>, s'))"

text \<open>
  The documented exchange: the two resources that the documented
  \<^verbatim>\<open>POST /data/batch\<close> response shows as created, and the documented response of
  \<^verbatim>\<open>DELETE /data/batch\<close> to the ids \<^verbatim>\<open>["11111", "22222", "33333"]\<close>.
\<close>

definition documented_batch_store :: store where
  "documented_batch_store =
     [(''11111'', Object [(''id'', String ''11111''), (''name'', String ''Item 1''),
         (''description'', String ''First item''), (''created_at'', String ''2023-01-02T00:00:00Z'')]),
      (''22222'', Object [(''id'', String ''22222''), (''name'', String ''Item 2''),
         (''description'', String ''Second item''), (''created_at'', String ''2023-01-02T00:00:00Z'')])]"

definition documented_batch_delete_response :: batch_delete_response where
  "documented_batch_delete_response =
     \<lparr> message = ''Batch delete completed'',
       summary = \<lparr> deleted = 2, failed = 1,
                   errors = [\<lparr> err_id = ''33333'', error = ''Not found'' \<rparr>] \<rparr> \<rparr>"

subsection \<open>Pagination of the list\<close>

text \<open>
  The pagination object of the \<^verbatim>\<open>GET /data\<close> response and the response itself
  (without its \<^verbatim>\<open>meta\<close> part).
\<close>

record pagination =
  current_page :: nat
  per_page :: nat
  total :: nat
  total_pages :: nat
  has_next :: bool
  has_prev :: bool

record list_response =
  data :: "jsval list"
  pagination :: pagination

datatype sort_order = Asc | Desc

text \<open>
  Modelled from the spec: the handler of \<^verbatim>\<open>GET /data\<close> is not in the repository.
  The specification gives \<^verbatim>\<open>list(filter, sort, pagination)\<close> returning the data
  and a pagination object that is derived and recomputed on each request.
  \<open>pages limit items\<close> cuts the items into the consecutive pages of \<open>limit\<close>
  items, the last one possibly shorter; \<open>page_items page limit items\<close> is the page
  with the given number, counted from 1.
\<close>

function pages :: "nat \<Rightarrow> 'a list \<Rightarrow> 'a list list" where
  "pages limit items =
     (if limit = 0 \<or> items = [] then []
      else take limit items # pages limit (drop limit items))"
  by pat_completeness auto
termination
  by (relation "measure (\<lambda>(limit, items). length items)") auto

definition page_items :: "nat \<Rightarrow> nat \<Rightarrow> 'a list \<Rightarrow> 'a list" where
  "page_items page limit items = take limit (drop ((page - 1) * limit) items)"

text \<open>
  Modelled from the spec: the list operation itself. The resources that match the
  filter are sorted by the key, ascending or descending; \<open>total\<close> counts them,
  \<open>total_pages\<close> counts the pages they fill, \<open>has_next\<close> says that the page
  after the current one holds an item and \<open>has_prev\<close> that the current page is
  not the first.
\<close>

definition list_data ::
  "(jsval \<Rightarrow> bool) \<Rightarrow> (jsval \<Rightarrow> 'k::linorder) \<Rightarrow> sort_order \<Rightarrow> nat \<Rightarrow> nat \<Rightarrow> store \<Rightarrow> list_response" where
  "list_data matches key ord page limit s =
     (let found = filter matches (map snd s);
          items = (case ord of Asc \<Rightarrow> sort_key key found | Desc \<Rightarrow> rev (sort_key key found))
      in \<lparr> data = page_items page limit items,
           pagination = \<lparr> current_page = page, per_page = limit, total = length items,
             total_pages = length (pages limit items),
             has_next = (page_items (page + 1) limit items \<noteq> []),
             has_prev = (1 < page) \<rparr> \<rparr>)"

text \<open>
  The pagination object of the documented response to
  \<^verbatim>\<open>GET /data?page=2&limit=50&...\<close>.
\<close>

definition documented_pagination :: pagination where
  "documented_pagination =
     \<lparr> current_page = 2, per_page = 50, total = 150, total_pages = 3,
       has_next = True, has_prev = True \<rparr>"

text \<open>A collection of \<open>n\<close> resources with distinct ids.\<close>

definition store_of_size :: "nat \<Rightarrow> store" where
  "store_of_size n =
     map (\<lambda>k. (replicate (Suc k) (CHR ''1''), Object [(''id'', String (replicate (Suc k) (CHR ''1'')))])) [0..<n]"

section \<open>Properties of withErrorHandling\<close>

lemma get_message_ok: "e \<noteq> Null \<Longrightarrow> e \<noteq> Undefined \<Longrightarrow> \<exists>m. get_message e = Inr m"
  by (cases e) (auto split: option.splits)

lemma withErrorHandling_rejectsUndefined:
  "withErrorHandling rejectsUndefined [] ((), []) = (Throw TypeError, ((), []))"
  by (simp add: withErrorHandling_def rejectsUndefined_def)

text \<open>
  C8, as stated: the wrapper returns \<^verbatim>\<open>null\<close> exactly when awaiting \<^verbatim>\<open>fn\<close>
  throws or rejects. A function that is fulfilled with \<^verbatim>\<open>null\<close> refutes it: the
  wrapper returns \<^verbatim>\<open>null\<close> although \<^verbatim>\<open>fn\<close> did not fail.
\<close>

theorem withErrorHandling_null_counterexample:
  "withErrorHandling resolvesNull [] ((), []) = (Return Null, ((), []))
   \<and> call resolvesNull [] () = (Return Null, ())"
  by (simp add: withErrorHandling_def resolvesNull_def)

text \<open>
  C8, amended: when awaiting \<^verbatim>\<open>fn\<close> is fulfilled with \<open>v\<close>, the wrapper returns
  \<open>v\<close> unchanged and logs nothing; when it is rejected with a value other than
  \<^verbatim>\<open>null\<close> and \<^verbatim>\<open>undefined\<close>, the wrapper logs the message of the error and
  returns \<^verbatim>\<open>null\<close>; a \<^verbatim>\<open>null\<close> result means that \<^verbatim>\<open>fn\<close> failed or was
  itself fulfilled with \<^verbatim>\<open>null\<close>; and the wrapper throws in no other case than
  a rejection with \<^verbatim>\<open>null\<close> or \<^verbatim>\<open>undefined\<close>.
\<close>

theorem withErrorHandling_result:
  "(call fn args w = (Return v, w') \<longrightarrow>
      withErrorHandling fn args (w, out) = (Return v, (w', out)))
   \<and> (call fn args w = (Throw e, w') \<and> e \<noteq> Null \<and> e \<noteq> Undefined \<longrightarrow>
      (\<exists>m. get_message e = Inr m \<and>
        withErrorHandling fn args (w, out) =
          (Return Null, (w', out @ [(''Error in '' @ name fn @ '':'', m)]))))
   \<and> (fst (withErrorHandling fn args (w, out)) = Return Null \<longrightarrow>
        fst (call fn args w) = Return Null \<or> (\<exists>e. fst (call fn args w) = Throw e))
   \<and> (fst (withErrorHandling fn args (w, out)) = Throw x \<longrightarrow>
        fst (call fn args w) = Throw Null \<or> fst (call fn args w) = Throw Undefined)"
proof (intro conjI impI)
  assume "call fn args w = (Return v, w')"
  then show "withErrorHandling fn args (w, out) = (Return v, (w', out))"
    by (simp add: withErrorHandling_def)
next
  assume a: "call fn args w = (Throw e, w') \<and> e \<noteq> Null \<and> e \<noteq> Undefined"
  then obtain m where "get_message e = Inr m" using get_message_ok by blast
  with a show "\<exists>m. get_message e = Inr m \<and>
        withErrorHandling fn args (w, out) =
          (Return Null, (w', out @ [(''Error in '' @ name fn @ '':'', m)]))"
    by (simp add: withErrorHandling_def)
next
  assume a: "fst (withErrorHandling fn args (w, out)) = Return Null"
  obtain c w1 where f: "call fn args w = (c, w1)" by (cases "call fn args w")
  show "fst (call fn args w) = Return Null \<or> (\<exists>e. fst (call fn args w) = Throw e)"
  proof (cases c)
    case (Return v)
    with a f show ?thesis by (simp add: withErrorHandling_def)
  next
    case (Throw e)
    with f show ?thesis by simp
  next
    case Never
    with a f show ?thesis by (simp add: withErrorHandling_def)
  qed
next
  assume a: "fst (withErrorHandling fn args (w, out)) = Throw x"
  obtain c w1 where f: "call fn args w = (c, w1)" by (cases "call fn args w")
  show "fst (call fn args w) = Throw Null \<or> fst (call fn args w) = Throw Undefined"
  proof (cases c)
    case (Return v)
    with a f show ?thesis by (simp add: withErrorHandling_def)
  next
    case (Throw e)
    show ?thesis
    proof (cases "e = Null \<or> e = Undefined")
      case True
      with f Throw show ?thesis by auto
    next
      case False
      then obtain m where "get_message e = Inr m" using get_message_ok by blast
      with a f Throw show ?thesis by (simp add: withErrorHandling_def)
    qed
  next
    case Never
    with a f show ?thesis by (simp add: withErrorHandling_def)
  qed
qed

theorem withErrorHandling_result_witness:
  "withErrorHandling mockApiCall [Number 123] ((), []) =
     (Return (Object [(''id'', Number 123), (''data'', String ''mock data'')]), ((), []))
   \<and> call mockApiCall [Null] () = (Throw (Error ''ID is required''), ())
   \<and> withErrorHandling mockApiCall [Null] ((), []) =
     (Return Null, ((), [(''Error in :'', String ''ID is required'')]))
   \<and> fst (withErrorHandling rejectsUndefined [] ((), [])) = Throw TypeError
   \<and> fst (call rejectsUndefined [] ()) = Throw Undefined"
proof -
  have ok: "call mockApiCall [Number 123] () =
      (Return (Object [(''id'', Number 123), (''data'', String ''mock data'')]), ())"
    by (simp add: mockApiCall_def)
  have bad: "call mockApiCall [Null] () = (Throw (Error ''ID is required''), ())
      \<and> Error ''ID is required'' \<noteq> Null \<and> Error ''ID is required'' \<noteq> Undefined"
    by (simp add: mockApiCall_def Error_def)
  from withErrorHandling_result[of mockApiCall "[Number 123]" "()" _ "()" "[]"] ok
  have 1: "withErrorHandling mockApiCall [Number 123] ((), []) =
     (Return (Object [(''id'', Number 123), (''data'', String ''mock data'')]), ((), []))"
    by blast
  from withErrorHandling_result[of mockApiCall "[Null]" "()" _ "()" "[]" "Error ''ID is required''"] bad
  obtain m where "get_message (Error ''ID is required'') = Inr m"
    and "withErrorHandling mockApiCall [Null] ((), []) =
          (Return Null, ((), [] @ [(''Error in '' @ name mockApiCall @ '':'', m)]))"
    by blast
  then have 2: "withErrorHandling mockApiCall [Null] ((), []) =
     (Return Null, ((), [(''Error in :'', String ''ID is required'')]))"
    by (simp add: Error_def mockApiCall_def)
  have thrown: "fst (withErrorHandling rejectsUndefined [] ((), [])) = Throw TypeError"
    by (simp add: withErrorHandling_rejectsUndefined)
  from withErrorHandling_result[of rejectsUndefined "[]" "()" _ _ "[]" _ TypeError] thrown
  have "fst (call rejectsUndefined [] ()) = Throw Null
      \<or> fst (call rejectsUndefined [] ()) = Throw Undefined"
    by blast
  then have 3: "fst (call rejectsUndefined [] ()) = Throw Undefined"
    by (simp add: rejectsUndefined_def)
  from 1 2 3 bad thrown show ?thesis by simp
qed

section \<open>Properties of retryWithBackoff\<close>

lemma outcome_0: "outcome fn 0 w = fst (fn w)"
  by (simp add: outcome_def)

lemma outcome_Suc: "outcome fn (Suc k) w = outcome fn k (snd (fn w))"
  by (simp add: outcome_def)

declare retry_loop.simps [simp del]

lemma retry_loop_done:
  "\<not> a \<le> m \<Longrightarrow> retry_loop fn m b a w = (Return Undefined, w, [])"
  by (simp add: retry_loop.simps)

lemma retry_loop_Return:
  "a \<le> m \<Longrightarrow> fn w = (Return v, w1) \<Longrightarrow> retry_loop fn m b a w = (Return v, w1, [Invoke a])"
  by (simp add: retry_loop.simps)

lemma retry_loop_Never:
  "a \<le> m \<Longrightarrow> fn w = (Never, w1) \<Longrightarrow> retry_loop fn m b a w = (Never, w1, [Invoke a])"
  by (simp add: retry_loop.simps)

lemma retry_loop_last:
  "fn w = (Throw e, w1) \<Longrightarrow> retry_loop fn m b m w = (Throw e, w1, [Invoke m])"
  by (simp add: retry_loop.simps)

lemma retry_loop_again:
  "a < m \<Longrightarrow> fn w = (Throw e, w1) \<Longrightarrow> retry_loop fn m b (a + 1) w1 = (r, w2, es) \<Longrightarrow>
   retry_loop fn m b a w =
     (r, w2, Invoke a # Log a (multiply b (Math_pow2 (nat (a - 1))))
        # SetTimeout (multiply b (Math_pow2 (nat (a - 1)))) # es)"
  by (subst retry_loop.simps) (simp add: Let_def)

lemma retry_loop_invocations:
  "retry_loop fn m b a w = (r, w', es) \<Longrightarrow> invocations es \<le> nat (m + 1 - a)"
proof (induction fn m b a w arbitrary: r w' es rule: retry_loop.induct)
  case (1 fn m b a w)
  show ?case
  proof (cases "a \<le> m")
    case False
    with "1.prems" show ?thesis by (simp add: retry_loop_done invocations_def)
  next
    case True
    obtain c w1 where f: "fn w = (c, w1)" by (cases "fn w")
    show ?thesis
    proof (cases c)
      case (Return v)
      with True f "1.prems" show ?thesis by (auto simp: retry_loop_Return invocations_def)
    next
      case Never
      with True f "1.prems" show ?thesis by (auto simp: retry_loop_Never invocations_def)
    next
      case (Throw e)
      show ?thesis
      proof (cases "a = m")
        case True
        with Throw f "1.prems" show ?thesis by (auto simp: retry_loop_last invocations_def)
      next
        case False
        obtain r2 w2 es2 where rec: "retry_loop fn m b (a + 1) w1 = (r2, w2, es2)"
          by (cases "retry_loop fn m b (a + 1) w1")
        from "1.IH"[OF True f[symmetric] Throw False refl rec]
        have "invocations es2 \<le> nat (m + 1 - (a + 1))" .
        moreover from True False have "a < m" by simp
        from retry_loop_again[where fn=fn and w=w, OF this f[unfolded Throw] rec] "1.prems"
        have "es = Invoke a # Log a (multiply b (Math_pow2 (nat (a - 1))))
            # SetTimeout (multiply b (Math_pow2 (nat (a - 1)))) # es2"
          by simp
        ultimately show ?thesis using True False by (simp add: invocations_def)
      qed
    qed
  qed
qed

lemma retry_loop_first_success:
  "\<lbrakk> int k \<le> m - a; \<forall>j<k. \<exists>e. outcome fn j w = Throw e; outcome fn k w = Return v \<rbrakk>
   \<Longrightarrow> \<exists>es. retry_loop fn m b a w = (Return v, world_after fn (Suc k) w, es) \<and> invocations es = Suc k"
proof (induction k arbitrary: a w)
  case 0
  then obtain w1 where f: "fn w = (Return v, w1)" by (cases "fn w") (simp add: outcome_0)
  from 0 have "a \<le> m" by simp
  from retry_loop_Return[where fn=fn and w=w, OF this f] f show ?case
    by (simp add: invocations_def)
next
  case (Suc k)
  from Suc.prems(2) obtain e where "outcome fn 0 w = Throw e" by blast
  then obtain w1 where f: "fn w = (Throw e, w1)" by (cases "fn w") (simp add: outcome_0)
  have le: "int k \<le> m - (a + 1)" using Suc.prems(1) by simp
  have fails: "\<forall>j<k. \<exists>e. outcome fn j w1 = Throw e"
  proof (intro allI impI)
    fix j assume "j < k"
    then have "\<exists>e. outcome fn (Suc j) w = Throw e" using Suc.prems(2) by simp
    then show "\<exists>e. outcome fn j w1 = Throw e" using f by (simp add: outcome_Suc)
  qed
  have ok: "outcome fn k w1 = Return v" using Suc.prems(3) f by (simp add: outcome_Suc)
  from Suc.IH[OF le fails ok] obtain es where
    rec: "retry_loop fn m b (a + 1) w1 = (Return v, world_after fn (Suc k) w1, es)"
    and n: "invocations es = Suc k" by blast
  have "a < m" using Suc.prems(1) by simp
  from retry_loop_again[where fn=fn and w=w, OF this f rec] f n show ?case by (simp add: invocations_def)
qed

lemma retry_loop_all_fail:
  "\<lbrakk> a \<le> m; n = nat (m - a); \<forall>j\<le>n. \<exists>e. outcome fn j w = Throw e \<rbrakk>
   \<Longrightarrow> \<exists>es. retry_loop fn m b a w = (outcome fn n w, world_after fn (Suc n) w, es) \<and> invocations es = Suc n"
proof (induction n arbitrary: a w)
  case 0
  then have am: "a = m" by simp
  from 0 obtain e where "outcome fn 0 w = Throw e" by blast
  then obtain w1 where f: "fn w = (Throw e, w1)" by (cases "fn w") (simp add: outcome_0)
  from retry_loop_last[where fn=fn and w=w, OF f] f am show ?case
    by (simp add: invocations_def outcome_0)
next
  case (Suc n)
  from Suc.prems(3) obtain e where "outcome fn 0 w = Throw e" by blast
  then obtain w1 where f: "fn w = (Throw e, w1)" by (cases "fn w") (simp add: outcome_0)
  have a: "a + 1 \<le> m" "n = nat (m - (a + 1))" using Suc.prems(1,2) by simp_all
  have fails: "\<forall>j\<le>n. \<exists>e. outcome fn j w1 = Throw e"
  proof (intro allI impI)
    fix j assume "j \<le> n"
    then have "\<exists>e. outcome fn (Suc j) w = Throw e" using Suc.prems(3) by simp
    then show "\<exists>e. outcome fn j w1 = Throw e" using f by (simp add: outcome_Suc)
  qed
  from Suc.IH[OF a fails] obtain es where
    rec: "retry_loop fn m b (a + 1) w1 = (outcome fn n w1, world_after fn (Suc n) w1, es)"
    and n: "invocations es = Suc n" by blast
  have "a < m" using a by simp
  from retry_loop_again[where fn=fn and w=w, OF this f rec] f n show ?case by (simp add: invocations_def outcome_Suc)
qed

lemma retry_loop_events:
  "a \<le> m \<Longrightarrow> retry_loop fn m b a w = (r, w', es) \<Longrightarrow>
   \<exists>k. a \<le> k \<and> k \<le> m \<and> es = concat (map (backoff_events b) [a..k - 1]) @ [Invoke k]
     \<and> (\<forall>n. a \<le> n \<and> n < k \<longrightarrow> (\<exists>e. outcome fn (nat (n - a)) w = Throw e))
     \<and> (k < m \<longrightarrow> (\<forall>e. outcome fn (nat (k - a)) w \<noteq> Throw e))"
proof (induction fn m b a w arbitrary: r w' es rule: retry_loop.induct)
  case (1 fn m b a w)
  note am = \<open>a \<le> m\<close> and run = \<open>retry_loop fn m b a w = (r, w', es)\<close>
  obtain c w1 where f: "fn w = (c, w1)" by (cases "fn w")
  have stop: "es = [Invoke a] \<Longrightarrow> a < m \<longrightarrow> (\<forall>e. c \<noteq> Throw e) \<Longrightarrow> ?case"
  proof -
    assume "es = [Invoke a]" and "a < m \<longrightarrow> (\<forall>e. c \<noteq> Throw e)"
    with am f have "a \<le> a \<and> a \<le> m \<and> es = concat (map (backoff_events b) [a..a - 1]) @ [Invoke a]
     \<and> (\<forall>n. a \<le> n \<and> n < a \<longrightarrow> (\<exists>e. outcome fn (nat (n - a)) w = Throw e))
     \<and> (a < m \<longrightarrow> (\<forall>e. outcome fn (nat (a - a)) w \<noteq> Throw e))"
      by (simp add: outcome_0)
    then show ?case by blast
  qed
  show ?case
  proof (cases c)
    case (Return v)
    from retry_loop_Return[where fn=fn and w=w and b=b, OF am f[unfolded Return]] run
    have "es = [Invoke a]" by simp
    with Return stop show ?thesis by simp
  next
    case Never
    from retry_loop_Never[where fn=fn and w=w and b=b, OF am f[unfolded Never]] run
    have "es = [Invoke a]" by simp
    with Never stop show ?thesis by simp
  next
    case (Throw e)
    show ?thesis
    proof (cases "a = m")
      case True
      from retry_loop_last[where fn=fn and w=w and m=m and b=b, OF f[unfolded Throw]] run True
      have "es = [Invoke a]" by simp
      with True stop show ?thesis by simp
    next
      case False
      with am have lt: "a < m" and am1: "a + 1 \<le> m" by simp_all
      obtain r2 w2 es2 where rec: "retry_loop fn m b (a + 1) w1 = (r2, w2, es2)"
        by (cases "retry_loop fn m b (a + 1) w1")
      from "1.IH"[OF am f[symmetric] Throw False refl am1 rec] obtain k where
        k: "a + 1 \<le> k" "k \<le> m" and
        es2: "es2 = concat (map (backoff_events b) [a + 1..k - 1]) @ [Invoke k]" and
        fails: "\<forall>n. a + 1 \<le> n \<and> n < k \<longrightarrow> (\<exists>e. outcome fn (nat (n - (a + 1))) w1 = Throw e)" and
        last: "k < m \<longrightarrow> (\<forall>e. outcome fn (nat (k - (a + 1))) w1 \<noteq> Throw e)"
        by blast
      from retry_loop_again[where fn=fn and w=w, OF lt f[unfolded Throw] rec] run
      have es: "es = backoff_events b a @ es2" by (simp add: backoff_events_def)
      have upto: "[a..k - 1] = a # [a + 1..k - 1]" using k(1) by (simp add: upto_rec1)
      have shift: "outcome fn (nat (n - a)) w = outcome fn (nat (n - (a + 1))) w1" if "a + 1 \<le> n" for n
      proof -
        from that have "nat (n - a) = Suc (nat (n - (a + 1)))" by simp
        then show ?thesis using f by (simp add: outcome_Suc)
      qed
      have 1: "es = concat (map (backoff_events b) [a..k - 1]) @ [Invoke k]"
        using es es2 upto by simp
      have 2: "\<forall>n. a \<le> n \<and> n < k \<longrightarrow> (\<exists>e. outcome fn (nat (n - a)) w = Throw e)"
      proof (intro allI impI)
        fix n assume n: "a \<le> n \<and> n < k"
        show "\<exists>e. outcome fn (nat (n - a)) w = Throw e"
        proof (cases "n = a")
          case True
          with f Throw show ?thesis by (simp add: outcome_0)
        next
          case False
          with n have "a + 1 \<le> n" by simp
          with fails n shift show ?thesis by simp
        qed
      qed
      have 3: "k < m \<longrightarrow> (\<forall>e. outcome fn (nat (k - a)) w \<noteq> Throw e)"
        using last shift[OF k(1)] by simp
      from k 1 2 3 have "a \<le> k \<and> k \<le> m \<and> es = concat (map (backoff_events b) [a..k - 1]) @ [Invoke k]
        \<and> (\<forall>n. a \<le> n \<and> n < k \<longrightarrow> (\<exists>e. outcome fn (nat (n - a)) w = Throw e))
        \<and> (k < m \<longrightarrow> (\<forall>e. outcome fn (nat (k - a)) w \<noteq> Throw e))" by simp
      then show ?thesis by blast
    qed
  qed
qed

lemma flaky_run: "retryWithBackoff flaky 3 (Finite 500) 0 =
  (Return (String ''Success!''), 3,
   [Invoke 1, Log 1 (Finite 500), SetTimeout (Finite 500),
    Invoke 2, Log 2 (Finite 1000), SetTimeout (Finite 1000), Invoke 3])"
  by (simp add: retryWithBackoff_def retry_loop.simps flaky_def Math_pow2_def overflow_def Let_def)

lemma delay_in_range:
  assumes "1 \<le> n" and "n \<le> 1024" and "\<bar>exponential_delay x n\<bar> < 2 ^ 1024"
  shows "multiply (Finite x) (Math_pow2 (nat (n - 1))) = Finite (exponential_delay x n)"
proof -
  from assms(1,2) have k: "nat (n - 1) < 1024" by simp
  from assms(3) have "\<not> 2 ^ 1024 \<le> x * 2 ^ nat (n - 1)" "\<not> x * 2 ^ nat (n - 1) \<le> - (2 ^ 1024)"
    unfolding exponential_delay_def by linarith+
  with k show ?thesis
    by (simp add: Math_pow2_def overflow_def exponential_delay_def)
qed

text \<open>
  C9: for \<open>maxRetries \<ge> 1\<close>, \<^verbatim>\<open>fn\<close> is invoked at most \<open>maxRetries\<close> times; when
  invocation \<open>k + 1\<close> is the first that succeeds, its result is returned and \<^verbatim>\<open>fn\<close>
  is not invoked again; when all \<open>maxRetries\<close> invocations fail, the error of the
  last one is thrown.
\<close>

theorem retryWithBackoff_attempts:
  assumes "1 \<le> maxRetries" and "retryWithBackoff fn maxRetries baseDelay w = (r, w', es)"
  shows "invocations es \<le> nat maxRetries
    \<and> (\<forall>k v. int k < maxRetries \<and> (\<forall>j<k. \<exists>e. outcome fn j w = Throw e) \<and> outcome fn k w = Return v
          \<longrightarrow> r = Return v \<and> invocations es = Suc k \<and> w' = world_after fn (Suc k) w)
    \<and> ((\<forall>j. int j < maxRetries \<longrightarrow> (\<exists>e. outcome fn j w = Throw e))
          \<longrightarrow> r = outcome fn (nat maxRetries - 1) w \<and> invocations es = nat maxRetries
              \<and> w' = world_after fn (nat maxRetries) w)"
proof (intro conjI allI impI)
  from assms(2) have "invocations es \<le> nat (maxRetries + 1 - 1)"
    unfolding retryWithBackoff_def by (rule retry_loop_invocations)
  then show "invocations es \<le> nat maxRetries" by simp
next
  fix k v
  assume a: "int k < maxRetries \<and> (\<forall>j<k. \<exists>e. outcome fn j w = Throw e) \<and> outcome fn k w = Return v"
  then have "int k \<le> maxRetries - 1" by simp
  from retry_loop_first_success[OF this, of fn w v baseDelay] a assms(2)
  show "r = Return v" and "invocations es = Suc k" and "w' = world_after fn (Suc k) w"
    by (auto simp: retryWithBackoff_def)
next
  assume a: "\<forall>j. int j < maxRetries \<longrightarrow> (\<exists>e. outcome fn j w = Throw e)"
  have "\<forall>j\<le>nat (maxRetries - 1). \<exists>e. outcome fn j w = Throw e"
  proof (intro allI impI)
    fix j assume "j \<le> nat (maxRetries - 1)"
    with assms(1) have "int j < maxRetries" by simp
    with a show "\<exists>e. outcome fn j w = Throw e" by simp
  qed
  from retry_loop_all_fail[OF assms(1) refl this, of baseDelay] assms(1,2)
  show "r = outcome fn (nat maxRetries - 1) w" and "invocations es = nat maxRetries"
    and "w' = world_after fn (nat maxRetries) w"
    by (auto simp: retryWithBackoff_def nat_diff_distrib Suc_nat_eq_nat_zadd1)
qed

theorem retryWithBackoff_attempts_witness:
  "(1::int) \<le> 3
   \<and> outcome flaky 0 0 = Throw (Error ''Random failure'')
   \<and> outcome flaky 1 0 = Throw (Error ''Random failure'')
   \<and> outcome flaky 2 0 = Return (String ''Success!'')
   \<and> fst (retryWithBackoff flaky 3 (Finite 500) 0) = Return (String ''Success!'')
   \<and> invocations (snd (snd (retryWithBackoff flaky 3 (Finite 500) 0))) = 3
   \<and> fst (retryWithBackoff flaky 2 (Finite 500) 0) = Throw (Error ''Random failure'')
   \<and> invocations (snd (snd (retryWithBackoff flaky 2 (Finite 500) 0))) = 2"
proof -
  have o: "outcome flaky 0 0 = Throw (Error ''Random failure'')"
    "outcome flaky 1 0 = Throw (Error ''Random failure'')"
    "outcome flaky 2 0 = Return (String ''Success!'')"
    by (simp_all add: outcome_def flaky_def numeral_2_eq_2)
  obtain r w' es where run3: "retryWithBackoff flaky 3 (Finite 500) 0 = (r, w', es)"
    by (cases "retryWithBackoff flaky 3 (Finite 500) 0")
  have first: "\<forall>j<2. \<exists>e. outcome flaky j 0 = Throw e"
    using o by (auto simp: less_Suc_eq numeral_2_eq_2)
  from retryWithBackoff_attempts[OF _ run3] first o(3)
  have 3: "r = Return (String ''Success!'')" "invocations es = 3"
    by (auto simp: numeral_3_eq_3 numeral_2_eq_2)
  obtain r2 w2 es2 where run2: "retryWithBackoff flaky 2 (Finite 500) 0 = (r2, w2, es2)"
    by (cases "retryWithBackoff flaky 2 (Finite 500) 0")
  have all: "\<forall>j. int j < 2 \<longrightarrow> (\<exists>e. outcome flaky j 0 = Throw e)"
  proof (intro allI impI)
    fix j :: nat assume "int j < 2"
    then have "j = 0 \<or> j = 1" by auto
    with o show "\<exists>e. outcome flaky j 0 = Throw e" by auto
  qed
  from retryWithBackoff_attempts[OF _ run2] all
  have "r2 = outcome flaky (nat 2 - 1) 0" "invocations es2 = nat 2" by simp_all
  then have 2: "r2 = Throw (Error ''Random failure'')" "invocations es2 = 2"
    using o by simp_all
  from o 3 2 run3 run2 show ?thesis by simp
qed

text \<open>
  C10, as stated: the delay after failed attempt \<open>n\<close> equals
  \<open>baseDelay * 2 ^ (n - 1)\<close>. With \<open>baseDelay = 2 ^ 1023\<close>, a double, the delay
  after the second failed attempt is \<^verbatim>\<open>Infinity\<close> and not \<open>2 ^ 1024\<close>.
\<close>

theorem retryWithBackoff_delay_overflow_counterexample:
  "retryWithBackoff alwaysFails 3 (Finite (2 ^ 1023)) () =
     (Throw (Error ''Random failure''), (),
      [Invoke 1, Log 1 (Finite (2 ^ 1023)), SetTimeout (Finite (2 ^ 1023)),
       Invoke 2, Log 2 PosInfinity, SetTimeout PosInfinity, Invoke 3])
   \<and> PosInfinity \<noteq> Finite (exponential_delay (2 ^ 1023) 2)"
  by (simp add: retryWithBackoff_def retry_loop.simps alwaysFails_def Math_pow2_def overflow_def Let_def)

text \<open>
  C10, amended: the events of a run are, for each attempt \<open>n\<close> before the last one
  \<open>k\<close>, the invocation, the log line and one timer whose delay is the double
  product \<^verbatim>\<open>baseDelay * Math.pow(2, n - 1)\<close>, followed by the invocation \<open>k\<close>.
  The attempts before \<open>k\<close> are the failed ones, and the run goes on after every
  failed attempt below \<open>maxRetries\<close>. That delay equals
  \<open>baseDelay * 2 ^ (n - 1)\<close> whenever \<open>baseDelay\<close> is finite, \<open>n \<le> 1024\<close> and
  the product is below \<open>2 ^ 1024\<close> in magnitude.
\<close>

theorem retryWithBackoff_delays:
  assumes "1 \<le> maxRetries" and "retryWithBackoff fn maxRetries baseDelay w = (r, w', es)"
  shows "\<exists>k. 1 \<le> k \<and> k \<le> maxRetries
    \<and> es = concat (map (\<lambda>n. [Invoke n, Log n (multiply baseDelay (Math_pow2 (nat (n - 1)))),
                              SetTimeout (multiply baseDelay (Math_pow2 (nat (n - 1))))])
                       [1..k - 1]) @ [Invoke k]
    \<and> (\<forall>n. 1 \<le> n \<and> n < k \<longrightarrow> (\<exists>e. outcome fn (nat (n - 1)) w = Throw e))
    \<and> (k < maxRetries \<longrightarrow> (\<forall>e. outcome fn (nat (k - 1)) w \<noteq> Throw e))
    \<and> (\<forall>n x. 1 \<le> n \<and> n \<le> 1024 \<and> baseDelay = Finite x
            \<and> \<bar>exponential_delay x n\<bar> < 2 ^ 1024 \<longrightarrow>
          multiply baseDelay (Math_pow2 (nat (n - 1))) = Finite (exponential_delay x n))"
proof -
  from retry_loop_events[OF assms(1) assms(2)[unfolded retryWithBackoff_def]]
  obtain k where k: "1 \<le> k" "k \<le> maxRetries"
    and es: "es = concat (map (backoff_events baseDelay) [1..k - 1]) @ [Invoke k]"
    and fails: "\<forall>n. 1 \<le> n \<and> n < k \<longrightarrow> (\<exists>e. outcome fn (nat (n - 1)) w = Throw e)"
    and last: "k < maxRetries \<longrightarrow> (\<forall>e. outcome fn (nat (k - 1)) w \<noteq> Throw e)"
    by blast
  have range: "\<forall>n x. 1 \<le> n \<and> n \<le> 1024 \<and> baseDelay = Finite x
            \<and> \<bar>exponential_delay x n\<bar> < 2 ^ 1024 \<longrightarrow>
          multiply baseDelay (Math_pow2 (nat (n - 1))) = Finite (exponential_delay x n)"
    using delay_in_range by blast
  from k es[unfolded backoff_events_def[abs_def]] fails last range show ?thesis by blast
qed

theorem retryWithBackoff_delays_witness:
  "(1::int) \<le> 3
   \<and> retryWithBackoff flaky 3 (Finite 500) 0 =
       (Return (String ''Success!''), 3,
        [Invoke 1, Log 1 (Finite 500), SetTimeout (Finite 500),
    Invoke 2, Log 2 (Finite 1000), SetTimeout (Finite 1000), Invoke 3])
   \<and> \<bar>exponential_delay 500 2\<bar> < 2 ^ 1024
   \<and> multiply (Finite 500) (Math_pow2 (nat (2 - 1))) = Finite (exponential_delay 500 2)
   \<and> exponential_delay 500 2 = 1000"
proof -
  have r: "\<bar>exponential_delay 500 2\<bar> < 2 ^ 1024" "exponential_delay 500 2 = 1000"
    by (simp_all add: exponential_delay_def)
  have "(1::int) \<le> 3" by simp
  from retryWithBackoff_delays[OF this flaky_run]
  have "\<forall>n x. 1 \<le> n \<and> n \<le> 1024 \<and> Finite 500 = Finite x
            \<and> \<bar>exponential_delay x n\<bar> < 2 ^ 1024 \<longrightarrow>
          multiply (Finite 500) (Math_pow2 (nat (n - 1))) = Finite (exponential_delay x n)"
    by blast
  then have "(1::int) \<le> 2 \<and> (2::int) \<le> 1024 \<and> Finite 500 = Finite 500
            \<and> \<bar>exponential_delay 500 2\<bar> < 2 ^ 1024 \<longrightarrow>
          multiply (Finite 500) (Math_pow2 (nat (2 - 1))) = Finite (exponential_delay 500 2)"
    by blast
  with r(1)
  have m: "multiply (Finite 500) (Math_pow2 (nat (2 - 1))) = Finite (exponential_delay 500 2)"
    by simp
  from m r flaky_run show ?thesis by simp
qed

section \<open>Properties of the batch delete\<close>

lemma batchDelete_documented:
  "batchDelete documented_batch_store [''11111'', ''22222'', ''33333''] =
     (documented_batch_delete_response, [])"
  by (simp add: batchDelete_def delete_data_def documented_batch_store_def
      documented_batch_delete_response_def)

lemma map_of_filter_other:
  "j \<noteq> i \<Longrightarrow> map_of (filter (\<lambda>(k, r). k \<noteq> i) s) j = map_of s j"
  by (induction s) auto

lemma delete_each_report:
  "distinct ids \<Longrightarrow> delete_each s ids = (r, s') \<Longrightarrow>
   deleted r = length (filter (\<lambda>i. map_of s i \<noteq> None) ids)
   \<and> failed r = length (filter (\<lambda>i. map_of s i = None) ids)
   \<and> errors r = map (\<lambda>i. \<lparr> err_id = i, error = ''Not found'' \<rparr>) (filter (\<lambda>i. map_of s i = None) ids)
   \<and> s' = filter (\<lambda>(k, v). k \<notin> set ids) s"
proof (induction ids arbitrary: s r s')
  case Nil
  then show ?case by auto
next
  case (Cons i ids)
  obtain r1 s1 where rec: "delete_each (snd (delete_data s i)) ids = (r1, s1)"
    by (cases "delete_each (snd (delete_data s i)) ids")
  from Cons.prems have d: "distinct ids" and ni: "i \<notin> set ids" by simp_all
  let ?s = "snd (delete_data s i)"
  have same: "map_of ?s j = map_of s j" if "j \<in> set ids" for j
  proof -
    from that ni have "j \<noteq> i" by auto
    then show ?thesis by (simp add: delete_data_def map_of_filter_other split: option.splits)
  qed
  have f1: "filter (\<lambda>i. map_of ?s i \<noteq> None) ids = filter (\<lambda>i. map_of s i \<noteq> None) ids"
    by (rule filter_cong) (simp_all add: same)
  have f2: "filter (\<lambda>i. map_of ?s i = None) ids = filter (\<lambda>i. map_of s i = None) ids"
    by (rule filter_cong) (simp_all add: same)
  note IH = Cons.IH[OF d rec, unfolded f1 f2]
  show ?case
  proof (cases "map_of s i")
    case None
    then have dd: "delete_data s i = (Inl NOT_FOUND, s)" by (simp add: delete_data_def)
    with rec Cons.prems(2) have r: "r = r1\<lparr> failed := failed r1 + 1,
        errors := \<lparr> err_id = i, error = ''Not found'' \<rparr> # errors r1 \<rparr>" and s: "s' = s1"
      by auto
    have "filter (\<lambda>(k, v). k \<notin> set ids) s = filter (\<lambda>(k, v). k \<notin> set (i # ids)) s"
      using None by (intro filter_cong) (force simp: map_of_eq_None_iff)+
    with IH r s None dd show ?thesis by simp
  next
    case (Some v)
    then have dd: "delete_data s i = (Inr True, filter (\<lambda>(k, r). k \<noteq> i) s)"
      by (simp add: delete_data_def)
    with rec Cons.prems(2) have r: "r = r1\<lparr> deleted := deleted r1 + 1 \<rparr>" and s: "s' = s1"
      by auto
    have "filter (\<lambda>(k, v). k \<notin> set ids) (filter (\<lambda>(k, r). k \<noteq> i) s)
        = filter (\<lambda>(k, v). k \<notin> set (i # ids)) s"
      by (induction s) auto
    with IH r s Some dd show ?thesis by simp
  qed
qed

lemma distinct_singleton: "distinct xs \<Longrightarrow> set xs = {x} \<Longrightarrow> xs = [x]"
proof (cases xs)
  case Nil
  assume "set xs = {x}" with Nil show ?thesis by simp
next
  case (Cons y ys)
  assume d: "distinct xs" and s: "set xs = {x}"
  from s Cons have y: "y = x" and sub: "set ys \<subseteq> {x}" by auto
  from d Cons y have "x \<notin> set ys" by simp
  with sub have "ys = []" by (cases ys) auto
  with Cons y show ?thesis by simp
qed

text \<open>
  C3: a batch delete over distinct ids reports as deleted the ids that are present
  and as failed the ids that are absent, with one error entry for each absent id,
  in the order of the request; over two present ids \<open>a\<close>, \<open>b\<close> and one absent id
  \<open>missing\<close>, in any order, \<open>deleted\<close> is 2, \<open>failed\<close> is 1 and the errors are the
  one entry for \<open>missing\<close>.
\<close>

theorem batchDelete_partial_failure:
  "(distinct ids \<longrightarrow>
      deleted (summary (fst (batchDelete s ids))) = length (filter (\<lambda>i. map_of s i \<noteq> None) ids)
    \<and> failed (summary (fst (batchDelete s ids))) = length (filter (\<lambda>i. map_of s i = None) ids)
    \<and> errors (summary (fst (batchDelete s ids))) =
        map (\<lambda>i. \<lparr> err_id = i, error = ''Not found'' \<rparr>) (filter (\<lambda>i. map_of s i = None) ids))
   \<and> (a \<noteq> b \<and> map_of s a \<noteq> None \<and> map_of s b \<noteq> None \<and> map_of s missing = None
        \<and> distinct ids \<and> set ids = {a, b, missing} \<longrightarrow>
      deleted (summary (fst (batchDelete s ids))) = 2
    \<and> failed (summary (fst (batchDelete s ids))) = 1
    \<and> errors (summary (fst (batchDelete s ids))) = [\<lparr> err_id = missing, error = ''Not found'' \<rparr>])"
proof -
  obtain r s' where run: "delete_each s ids = (r, s')" by (cases "delete_each s ids")
  then have sm: "summary (fst (batchDelete s ids)) = r" by (simp add: batchDelete_def)
  have general: "deleted r = length (filter (\<lambda>i. map_of s i \<noteq> None) ids)
    \<and> failed r = length (filter (\<lambda>i. map_of s i = None) ids)
    \<and> errors r = map (\<lambda>i. \<lparr> err_id = i, error = ''Not found'' \<rparr>) (filter (\<lambda>i. map_of s i = None) ids)"
    if "distinct ids"
    using delete_each_report[OF that run] by simp
  have special: "deleted r = 2 \<and> failed r = 1
      \<and> errors r = [\<lparr> err_id = missing, error = ''Not found'' \<rparr>]"
    if h: "a \<noteq> b \<and> map_of s a \<noteq> None \<and> map_of s b \<noteq> None \<and> map_of s missing = None
        \<and> distinct ids \<and> set ids = {a, b, missing}"
  proof -
    from h have d: "distinct ids" by simp
    from h have ma: "missing \<noteq> a" "missing \<noteq> b" by auto
    have absent: "{x. map_of s x = None} \<inter> set ids = {missing}" using h by auto
    have present: "{x. map_of s x \<noteq> None} \<inter> set ids = {a, b}" using h by auto
    have "length (filter (\<lambda>i. map_of s i \<noteq> None) ids) = card {a, b}"
      using distinct_length_filter[OF d, of "\<lambda>i. map_of s i \<noteq> None"] present by simp
    then have two: "length (filter (\<lambda>i. map_of s i \<noteq> None) ids) = 2" using h by simp
    have "set (filter (\<lambda>i. map_of s i = None) ids) = {missing}" using absent by auto
    then have one: "filter (\<lambda>i. map_of s i = None) ids = [missing]"
      using d by (intro distinct_singleton) simp_all
    from general[OF d] two one show ?thesis by simp
  qed
  from general special sm show ?thesis by simp
qed

theorem batchDelete_partial_failure_witness:
  "distinct [''11111'', ''22222'', ''33333'']
   \<and> ''11111'' \<noteq> ''22222''
   \<and> map_of documented_batch_store ''11111'' \<noteq> None
   \<and> map_of documented_batch_store ''22222'' \<noteq> None
   \<and> map_of documented_batch_store ''33333'' = None
   \<and> summary (fst (batchDelete documented_batch_store [''11111'', ''22222'', ''33333'']))
       = summary documented_batch_delete_response"
proof -
  have h: "''11111'' \<noteq> ''22222'' \<and> map_of documented_batch_store ''11111'' \<noteq> None
      \<and> map_of documented_batch_store ''22222'' \<noteq> None
      \<and> map_of documented_batch_store ''33333'' = None
      \<and> distinct [''11111'', ''22222'', ''33333'']
      \<and> set [''11111'', ''22222'', ''33333''] = {''11111'', ''22222'', ''33333''}"
    by (simp add: documented_batch_store_def)
  from batchDelete_partial_failure[of "[''11111'', ''22222'', ''33333'']" documented_batch_store
      "''11111''" "''22222''" "''33333''"] h
  have "deleted (summary (fst (batchDelete documented_batch_store [''11111'', ''22222'', ''33333'']))) = 2
    \<and> failed (summary (fst (batchDelete documented_batch_store [''11111'', ''22222'', ''33333'']))) = 1
    \<and> errors (summary (fst (batchDelete documented_batch_store [''11111'', ''22222'', ''33333''])))
        = [\<lparr> err_id = ''33333'', error = ''Not found'' \<rparr>]"
    by blast
  then have "summary (fst (batchDelete documented_batch_store [''11111'', ''22222'', ''33333'']))
       = summary documented_batch_delete_response"
    by (simp add: documented_batch_delete_response_def delete_summary.equality)
  with h show ?thesis by simp
qed

section \<open>Properties of the pagination\<close>

lemma ceil_div_bounds:
  fixes n limit :: nat
  assumes "0 < limit"
  shows "n \<le> (n + limit - 1) div limit * limit"
    and "(n + limit - 1) div limit * limit < n + limit"
proof -
  define q where "q = (n + limit - 1) div limit"
  define m where "m = (n + limit - 1) mod limit"
  have e: "q * limit + m = n + limit - 1" by (simp add: q_def m_def)
  have "m < limit" using assms by (simp add: m_def)
  with e assms show "n \<le> (n + limit - 1) div limit * limit"
    and "(n + limit - 1) div limit * limit < n + limit"
    unfolding q_def[symmetric] by linarith+
qed

lemma ceiling_div_nat:
  fixes n limit :: nat
  assumes "0 < limit"
  shows "int ((n + limit - 1) div limit) = \<lceil>real n / real limit\<rceil>"
proof -
  define q where "q = (n + limit - 1) div limit"
  from ceil_div_bounds[OF assms, of n]
  have up: "n \<le> q * limit" and low: "q * limit < n + limit" by (simp_all add: q_def)
  have l: "0 < real limit" using assms by simp
  from up have "real n \<le> real (q * limit)" by (rule of_nat_mono)
  then have a: "real n / real limit \<le> real q" using l by (simp add: pos_divide_le_eq)
  from low have "real (q * limit) < real (n + limit)" by (simp only: of_nat_less_iff)
  then have "(real q - 1) * real limit < real n" by (simp add: algebra_simps)
  then have b: "real q - 1 < real n / real limit" using l by (simp add: pos_less_divide_eq)
  have "\<lceil>real n / real limit\<rceil> = int q"
    by (rule ceiling_unique) (use a b in simp_all)
  then show ?thesis by (simp add: q_def)
qed

lemma div_ceil_Suc: "0 < limit \<Longrightarrow> (Suc k + limit - 1) div limit = Suc (k div limit)"
  by simp

declare pages.simps [simp del]

lemma length_pages:
  "0 < limit \<Longrightarrow> length (pages limit items) = (length items + limit - 1) div limit"
proof (induction limit items rule: pages.induct)
  case (1 limit items)
  show ?case
  proof (cases "items = []")
    case True
    with 1 show ?thesis by (simp add: pages.simps)
  next
    case False
    then obtain k where len: "length items = Suc k" by (cases items) auto
    from False "1.prems" have step: "pages limit items = take limit items # pages limit (drop limit items)"
      by (subst pages.simps) simp
    from "1.IH" False "1.prems"
    have IH: "length (pages limit (drop limit items)) = (length items - limit + limit - 1) div limit"
      by simp
    have "(length items - limit + limit - 1) div limit = k div limit"
    proof (cases "limit \<le> Suc k")
      case True
      with len have "length items - limit + limit - 1 = k" by simp
      then show ?thesis by simp
    next
      case False
      with len "1.prems" have "(length items - limit + limit - 1) div limit = 0" "k div limit = 0"
        by simp_all
      then show ?thesis by simp
    qed
    with IH step have "length (pages limit items) = Suc (k div limit)" by simp
    also have "\<dots> = (length items + limit - 1) div limit"
      using div_ceil_Suc[OF "1.prems", of k] len by simp
    finally show ?thesis .
  qed
qed

lemma page_after_nonempty:
  "0 < limit \<Longrightarrow> (page_items (page + 1) limit items \<noteq> []) = (page * limit < length items)"
  by (auto simp: page_items_def)

lemma next_page_iff:
  fixes n limit page :: nat
  assumes "0 < limit"
  shows "(page * limit < n) = (page < (n + limit - 1) div limit)"
proof
  assume "page * limit < n"
  also have "n \<le> (n + limit - 1) div limit * limit" using ceil_div_bounds(1)[OF assms] .
  finally show "page < (n + limit - 1) div limit" using assms by simp
next
  assume "page < (n + limit - 1) div limit"
  then have "Suc page \<le> (n + limit - 1) div limit" by simp
  then have "Suc page * limit \<le> (n + limit - 1) div limit * limit" by (rule mult_le_mono1)
  also have "\<dots> < n + limit" using ceil_div_bounds(2)[OF assms] .
  finally show "page * limit < n" by simp
qed

lemma list_data_envelope:
  "pagination (list_data matches key ord page limit s) =
     \<lparr> current_page = page, per_page = limit, total = length (filter matches (map snd s)),
       total_pages = length (pages limit
         (case ord of Asc \<Rightarrow> sort_key key (filter matches (map snd s))
                    | Desc \<Rightarrow> rev (sort_key key (filter matches (map snd s))))),
       has_next = (page_items (page + 1) limit
         (case ord of Asc \<Rightarrow> sort_key key (filter matches (map snd s))
                    | Desc \<Rightarrow> rev (sort_key key (filter matches (map snd s)))) \<noteq> []),
       has_prev = (1 < page) \<rparr>"
  by (cases ord) (simp_all add: list_data_def Let_def)

text \<open>
  C5: with at least one item per page, the pagination object of a list response
  has \<open>total_pages\<close> equal to \<open>total / per_page\<close> rounded up, \<open>has_next\<close> exactly
  when \<open>current_page < total_pages\<close> and \<open>has_prev\<close> exactly when
  \<open>current_page > 1\<close>; page 2 with 50 items per page over 150 items gives the
  documented object, with 3 pages, a next and a previous page.
\<close>

theorem list_data_pagination:
  assumes "1 \<le> limit"
  shows "let p = pagination (list_data matches key ord page limit s) in
     current_page p = page \<and> per_page p = limit
     \<and> total p = length (filter matches (map snd s))
     \<and> int (total_pages p) = \<lceil>real (total p) / real (per_page p)\<rceil>
     \<and> (has_next p \<longleftrightarrow> current_page p < total_pages p)
     \<and> (has_prev p \<longleftrightarrow> 1 < current_page p)
     \<and> (page = 2 \<and> limit = 50 \<and> total p = 150 \<longrightarrow> p = documented_pagination)"
proof -
  from assms have l: "0 < limit" by simp
  define items where "items = (case ord of Asc \<Rightarrow> sort_key key (filter matches (map snd s))
                    | Desc \<Rightarrow> rev (sort_key key (filter matches (map snd s))))"
  define n where "n = length (filter matches (map snd s))"
  have len: "length items = n" by (cases ord) (simp_all add: items_def n_def)
  have tp: "length (pages limit items) = (n + limit - 1) div limit"
    using length_pages[OF l, of items] len by simp
  have hn: "(page_items (page + 1) limit items \<noteq> []) = (page < (n + limit - 1) div limit)"
    using page_after_nonempty[OF l, of page items] next_page_iff[OF l, of page n] len by simp
  have p: "pagination (list_data matches key ord page limit s) =
     \<lparr> current_page = page, per_page = limit, total = n,
       total_pages = (n + limit - 1) div limit,
       has_next = (page < (n + limit - 1) div limit), has_prev = (1 < page) \<rparr>"
    unfolding list_data_envelope items_def[symmetric] n_def[symmetric] tp hn ..
  show ?thesis
    unfolding p Let_def n_def[symmetric]
    using ceiling_div_nat[OF l, of n] by (simp add: documented_pagination_def)
qed

theorem list_data_pagination_witness:
  "(1::nat) \<le> 50
   \<and> length (filter (\<lambda>r. True) (map snd (store_of_size 150))) = 150
   \<and> pagination (list_data (\<lambda>r. True) (\<lambda>r. ()) Desc 2 50 (store_of_size 150)) = documented_pagination"
proof -
  have n: "length (filter (\<lambda>r. True) (map snd (store_of_size 150))) = 150"
    by (simp add: store_of_size_def)
  from list_data_pagination[of 50 "\<lambda>r. True" "\<lambda>r. ()" Desc 2 "store_of_size 150"] n
  show ?thesis by (simp add: Let_def)
qed

end
